theory Spec2Isabelle
  imports Main "HOL-Library.Sublist" "HOL-Library.AList" "HOL-Library.List_Lexorder"
    "HOL-Library.Char_ord"
begin

section \<open>The environment of BackupManager.py\<close>

text \<open>
  The program talks to the filesystem, the wall clock and the console. The model makes
  all three explicit. A path is the list of its components, so \<open>os.path.join d f\<close> is
  \<open>d @ [f]\<close>, \<open>os.path.basename\<close> is the last component and \<open>os.path.relpath p d\<close>
  drops the components of \<open>d\<close>. The filesystem is an association list from paths to
  nodes; its order stands for the order in which the operating system lists a directory.
  Everything printed is returned as a list of messages.
\<close>

type_synonym path = "string list"

record datetime =
  dt_year :: nat
  dt_month :: nat
  dt_day :: nat
  dt_hour :: nat
  dt_minute :: nat
  dt_second :: nat

datatype compression = ZIP_STORED | ZIP_DEFLATED

datatype fdata =
    Bytes string
  | Archive (finalized: bool) (acomment: "(string \<times> datetime) option") (aentries: "zentry list")
and zentry =
    ZEntry (arcname: path) (edata: fdata) (ecompression: compression) (ecompresslevel: "int option")

datatype 't node = Dir 't | File 't fdata

fun ctime :: "'t node \<Rightarrow> 't" where
  "ctime (Dir t) = t"
| "ctime (File t c) = t"

fun is_dir :: "'t node option \<Rightarrow> bool" where
  "is_dir (Some (Dir t)) = True"
| "is_dir _ = False"

fun is_file :: "'t node option \<Rightarrow> bool" where
  "is_file (Some (File t c)) = True"
| "is_file _ = False"

text \<open>
  \<open>now\<close> is what \<open>datetime.now()\<close> reads on line 168, to the second, \<open>now_later\<close> what
  it reads again on line 177 for the comment of the archive, and \<open>fs_clock\<close> the time
  the filesystem stamps on a node it creates. The fields after the clocks say which
  operating-system calls fail in this world; they are the inputs that decide every
  \<open>except\<close> branch of the program: \<open>os.makedirs\<close> fails, opening the archive fails,
  closing it fails, \<open>zipf.write\<close> fails on the files of \<open>unreadable\<close> (no permission,
  locked, or gone by the time they are added), \<open>os.remove\<close> fails on those of
  \<open>undeletable\<close>.
\<close>

record 't world =
  fs :: "(path \<times> 't node) list"
  now :: datetime
  now_later :: datetime
  fs_clock :: 't
  mkdir_fails :: bool
  open_fails :: bool
  close_fails :: bool
  unreadable :: "path list"
  undeletable :: "path list"

datatype exn = OSError | IndexError | ValueError | OverflowError | UnicodeEncodeError

datatype msg =
    SaveFolderNotFound path
  | BackupFolderCreated path
  | NoFilesInSaveFolder path
  | FailedToAddFile path exn
  | BackupCreated string nat
  | FailedToCreateBackup path
  | ErrorCreatingBackup exn
  | OldBackupDeleted string
  | FailedToDelete path exn
  | OldBackupsDeleted nat
  | ErrorCleaningUp exn
  | ManualBackupTriggered
  | NextAutomaticBackupIn int
  | AutomaticBackupOnSchedule

subsection \<open>The os module\<close>

definition os_path_exists :: "'t world \<Rightarrow> path \<Rightarrow> bool" where
  "os_path_exists w p = (map_of (fs w) p \<noteq> None)"

definition basename :: "path \<Rightarrow> string" where
  "basename p = (if p = [] then [] else last p)"

definition relpath :: "path \<Rightarrow> path \<Rightarrow> path" where
  "relpath p start = drop (length start) p"

text \<open>
  \<open>os.makedirs d exist_ok=True\<close> creates \<open>d\<close> and every missing parent; it raises when
  the system refuses or when a component of the path is a regular file.
\<close>

definition parents :: "path \<Rightarrow> path list" where
  "parents d = map (\<lambda>n. take n d) [1..<Suc (length d)]"

definition os_makedirs :: "path \<Rightarrow> 't world \<Rightarrow> exn + 't world" where
  "os_makedirs d w =
     (if mkdir_fails w \<or> list_ex (\<lambda>p. is_file (map_of (fs w) p)) (parents d) then Inl OSError
      else Inr (w\<lparr>fs := fs w @
                  map (\<lambda>p. (p, Dir (fs_clock w)))
                    (filter (\<lambda>p. map_of (fs w) p = None) (parents d))\<rparr>))"

text \<open>
  \<open>os.walk\<close> ignores errors: on a path that is not a directory it yields nothing.
  The files found are those strictly below \<open>src\<close>, in filesystem order.
\<close>

definition os_walk_files :: "path \<Rightarrow> 't world \<Rightarrow> path list" where
  "os_walk_files src w =
     (if is_dir (map_of (fs w) src)
      then map fst (filter (\<lambda>(p, n). is_file (Some n) \<and> strict_prefix src p) (fs w))
      else [])"

definition os_listdir :: "path \<Rightarrow> 't world \<Rightarrow> exn + string list" where
  "os_listdir d w =
     (if is_dir (map_of (fs w) d)
      then Inr (map (\<lambda>(p, n). last p) (filter (\<lambda>(p, n). p \<noteq> [] \<and> butlast p = d) (fs w)))
      else Inl OSError)"

definition os_getctime :: "path \<Rightarrow> 't world \<Rightarrow> exn + 't" where
  "os_getctime p w = (case map_of (fs w) p of None \<Rightarrow> Inl OSError | Some n \<Rightarrow> Inr (ctime n))"

text \<open>\<open>os.remove\<close> deletes a regular file; it raises on a directory, on a missing path and
  on a file the system will not let go.\<close>

definition os_remove :: "path \<Rightarrow> 't world \<Rightarrow> exn + 't world" where
  "os_remove p w =
     (if is_file (map_of (fs w) p) \<and> p \<notin> set (undeletable w)
      then Inr (w\<lparr>fs := AList.delete p (fs w)\<rparr>)
      else Inl OSError)"

section \<open>cleanup\_old\_backups\<close>

text \<open>The test of line 213: the name starts with \<open><game_name>_backup_\<close> and ends with
  \<open>.zip\<close>.\<close>

definition is_backup_name :: "string \<Rightarrow> string \<Rightarrow> bool" where
  "is_backup_name game_name file = (prefix (game_name @ ''_backup_'') file \<and> suffix ''.zip'' file)"

text \<open>The \<open>for\<close> loop of lines 212 to 215 over the directory listing.\<close>

fun collect_backups :: "path \<Rightarrow> string \<Rightarrow> string list \<Rightarrow> 't world \<Rightarrow> exn + (path \<times> 't) list" where
  "collect_backups backup_dir game_name [] w = Inr []"
| "collect_backups backup_dir game_name (file # rest) w =
     (if is_backup_name game_name file then
        (case os_getctime (backup_dir @ [file]) w of
           Inl e \<Rightarrow> Inl e
         | Inr t \<Rightarrow>
            (case collect_backups backup_dir game_name rest w of
               Inl e \<Rightarrow> Inl e
             | Inr backups \<Rightarrow> Inr ((backup_dir @ [file], t) # backups)))
      else collect_backups backup_dir game_name rest w)"

text \<open>
  The \<open>while\<close> loop of lines 222 to 229. \<open>backups.pop(0)\<close> on the empty list raises
  IndexError, which happens exactly when \<open>max_backups\<close> is negative. The result is the
  exception that left the loop (if any), \<open>removed_count\<close>, the world and the messages.
\<close>

fun remove_excess ::
  "int \<Rightarrow> (path \<times> 't) list \<Rightarrow> nat \<Rightarrow> 't world \<Rightarrow> exn option \<times> nat \<times> 't world \<times> msg list" where
  "remove_excess max_backups [] removed_count w =
     (if 0 > max_backups then (Some IndexError, removed_count, w, [])
      else (None, removed_count, w, []))"
| "remove_excess max_backups (old_backup # backups) removed_count w =
     (if int (length (old_backup # backups)) > max_backups then
        (case os_remove (fst old_backup) w of
           Inr w' \<Rightarrow>
             (case remove_excess max_backups backups (removed_count + 1) w' of
                (e, n, w'', ms) \<Rightarrow> (e, n, w'', OldBackupDeleted (basename (fst old_backup)) # ms))
         | Inl ex \<Rightarrow>
             (case remove_excess max_backups backups removed_count w of
                (e, n, w'', ms) \<Rightarrow> (e, n, w'', FailedToDelete (fst old_backup) ex # ms)))
      else (None, removed_count, w, []))"

text \<open>
  \<open>backups.sort(key=lambda x: x[1])\<close> is a stable sort on the creation time. A stable
  sort by a key has one possible result, so \<open>sort_key\<close> computes the list Python computes.
\<close>

definition cleanup_old_backups :: "path \<Rightarrow> string \<Rightarrow> int \<Rightarrow> ('t::linorder) world \<Rightarrow> 't world \<times> msg list" where
  "cleanup_old_backups backup_dir game_name max_backups w =
     (case os_listdir backup_dir w of
        Inl e \<Rightarrow> (w, [ErrorCleaningUp e])
      | Inr listing \<Rightarrow>
         (case collect_backups backup_dir game_name listing w of
            Inl e \<Rightarrow> (w, [ErrorCleaningUp e])
          | Inr backups \<Rightarrow>
             (case remove_excess max_backups (sort_key snd backups) 0 w of
                (Some e, n, w', ms) \<Rightarrow> (w', ms @ [ErrorCleaningUp e])
              | (None, n, w', ms) \<Rightarrow> (w', ms @ (if n > 0 then [OldBackupsDeleted n] else [])))))"

section \<open>create\_backup\<close>

subsection \<open>The timestamp of the file name\<close>

text \<open>\<open>strftime("%Y%m%d_%H%M%S")\<close>: the year on four digits, every other field on two,
  zero-padded. On the values a \<open>datetime\<close> can hold (\<open>valid_datetime\<close> below) these are
  the digits printed.\<close>

definition dig :: "nat \<Rightarrow> char" where
  "dig n = ''0123456789'' ! (n mod 10)"

definition pad2 :: "nat \<Rightarrow> string" where
  "pad2 n = [dig (n div 10), dig n]"

definition pad4 :: "nat \<Rightarrow> string" where
  "pad4 n = [dig (n div 1000), dig (n div 100), dig (n div 10), dig n]"

definition strftime :: "datetime \<Rightarrow> string" where
  "strftime d =
     pad4 (dt_year d) @ pad2 (dt_month d) @ pad2 (dt_day d) @ ''_'' @
     pad2 (dt_hour d) @ pad2 (dt_minute d) @ pad2 (dt_second d)"

text \<open>The values a Python \<open>datetime\<close> can hold (the day is not checked against the month:
  nothing below depends on it).\<close>

definition valid_datetime :: "datetime \<Rightarrow> bool" where
  "valid_datetime d =
     (1 \<le> dt_year d \<and> dt_year d \<le> 9999 \<and> 1 \<le> dt_month d \<and> dt_month d \<le> 12 \<and>
      1 \<le> dt_day d \<and> dt_day d \<le> 31 \<and> dt_hour d < 24 \<and> dt_minute d < 60 \<and> dt_second d < 60)"

definition backup_filename :: "string \<Rightarrow> datetime \<Rightarrow> string" where
  "backup_filename game_name d = game_name @ ''_backup_'' @ strftime d @ ''.zip''"

subsection \<open>The zipfile module\<close>

text \<open>
  A \<open>ZipFile\<close> object opened for writing. \<open>zipfile.ZipFile(file, mode, compression,
  allowZip64, compresslevel)\<close>: the third positional argument is the compression method,
  and \<open>compresslevel\<close> defaults to \<open>None\<close> (the library's default level). Opening with
  mode \<open>'w'\<close> creates the file, or truncates the one that is there, at once.
  The node written carries the time of the filesystem clock. (Where \<open>getctime\<close> is the
  creation time, a file that is overwritten keeps its old one; the theorems below do not
  say what the time of a written file is.)
\<close>

record zipfile =
  zf_path :: path
  zf_compression :: compression
  zf_compresslevel :: "int option"
  zf_comment :: "(string \<times> datetime) option"
  zf_entries :: "zentry list"

definition zip_open :: "path \<Rightarrow> compression \<Rightarrow> 't world \<Rightarrow> exn + (zipfile \<times> 't world)" where
  "zip_open p compression w =
     (if open_fails w \<or> p = [] \<or> \<not> is_dir (map_of (fs w) (butlast p)) \<or> is_dir (map_of (fs w) p)
      then Inl OSError
      else Inr (\<lparr>zf_path = p, zf_compression = compression, zf_compresslevel = None,
                 zf_comment = None, zf_entries = []\<rparr>,
                w\<lparr>fs := AList.update p (File (fs_clock w) (Archive False None [])) (fs w)\<rparr>))"

text \<open>\<open>zipf.write(filename, arcname)\<close>: no \<open>compress_type\<close> and no \<open>compresslevel\<close> are
  given, so the entry takes those of the \<open>ZipFile\<close> object.\<close>

definition zip_write :: "zipfile \<Rightarrow> path \<Rightarrow> path \<Rightarrow> 't world \<Rightarrow> exn + zipfile" where
  "zip_write zipf filename arc w =
     (case map_of (fs w) filename of
        Some (File t c) \<Rightarrow>
          if filename \<in> set (unreadable w) then Inl OSError
          else Inr (zipf\<lparr>zf_entries := zf_entries zipf @
                      [ZEntry arc c (zf_compression zipf) (zf_compresslevel zipf)]\<rparr>)
      | _ \<Rightarrow> Inl OSError)"

text \<open>Leaving the \<open>with\<close> block closes the archive: the central directory and the comment
  are written. When that fails the file stays as it is, unfinished.\<close>

definition zip_close :: "zipfile \<Rightarrow> 't world \<Rightarrow> exn option \<times> 't world" where
  "zip_close zipf w =
     (if close_fails w
      then (Some OSError,
            w\<lparr>fs := AList.update (zf_path zipf)
                      (File (fs_clock w) (Archive False None (zf_entries zipf))) (fs w)\<rparr>)
      else (None,
            w\<lparr>fs := AList.update (zf_path zipf)
                      (File (fs_clock w) (Archive True (zf_comment zipf) (zf_entries zipf))) (fs w)\<rparr>))"

text \<open>The \<open>for\<close> loop of lines 179 to 184: a file that cannot be added is reported and
  skipped.\<close>

fun add_files :: "zipfile \<Rightarrow> path \<Rightarrow> path list \<Rightarrow> 't world \<Rightarrow> zipfile \<times> msg list" where
  "add_files zipf source_dir [] w = (zipf, [])"
| "add_files zipf source_dir (file_path # rest) w =
     (case zip_write zipf file_path (relpath file_path source_dir) w of
        Inr zipf' \<Rightarrow> add_files zipf' source_dir rest w
      | Inl e \<Rightarrow>
         (case add_files zipf source_dir rest w of
            (zipf', ms) \<Rightarrow> (zipf', FailedToAddFile file_path e # ms)))"

subsection \<open>The function\<close>

text \<open>Lines 152 to 155.\<close>

definition ensure_backup_dir :: "path \<Rightarrow> 't world \<Rightarrow> exn + ('t world \<times> msg list)" where
  "ensure_backup_dir backup_dir w =
     (if \<not> os_path_exists w backup_dir then
        (case os_makedirs backup_dir w of
           Inl e \<Rightarrow> Inl e
         | Inr w' \<Rightarrow> Inr (w', [BackupFolderCreated backup_dir]))
      else Inr (w, []))"

text \<open>Lines 167 to 194, entered with a non-empty \<open>files_to_backup\<close>: the archive is
  written under its final name. The level is clamped on line 174 and the result is bound
  to \<open>compress_level\<close>, as in the source. The result \<open>True\<close> says that line 197 is
  reached. \<open>os.path.join\<close> adds the file name to \<open>backup_dir\<close> as one component, which is
  what it does for a label that holds no path separator (\<open>plain_label\<close> below); with a
  separator in the label the real path has more components, and the retention theorem
  that depends on where the archive lands is stated for plain labels.\<close>

definition write_archive ::
  "path \<Rightarrow> path \<Rightarrow> string \<Rightarrow> int \<Rightarrow> path list \<Rightarrow> 't world \<Rightarrow> (exn + bool) \<times> 't world \<times> msg list" where
  "write_archive source_dir backup_dir game_name compress_level files_to_backup w =
     (let timestamp = strftime (now w);
          backup_filename = game_name @ ''_backup_'' @ timestamp @ ''.zip'';
          backup_path = backup_dir @ [backup_filename];
          compression = ZIP_DEFLATED;
          compress_level = min (max compress_level 0) 9
      in case zip_open backup_path compression w of
           Inl e \<Rightarrow> (Inl e, w, [])
         | Inr (zipf, w1) \<Rightarrow>
            (case add_files (zipf\<lparr>zf_comment := Some (game_name, now_later w1)\<rparr>) source_dir
                    files_to_backup w1 of
               (zipf', ms) \<Rightarrow>
                 (case zip_close zipf' w1 of
                    (Some e, w2) \<Rightarrow> (Inl e, w2, ms)
                  | (None, w2) \<Rightarrow>
                     if os_path_exists w2 backup_path
                     then (Inr True, w2, ms @ [BackupCreated backup_filename (length files_to_backup)])
                     else (Inr False, w2, ms @ [FailedToCreateBackup backup_path]))))"

text \<open>Lines 146 to 194: everything before the call of \<open>cleanup_old_backups\<close>.\<close>

definition archive_part ::
  "path \<Rightarrow> path \<Rightarrow> string \<Rightarrow> int \<Rightarrow> 't world \<Rightarrow> (exn + bool) \<times> 't world \<times> msg list" where
  "archive_part source_dir backup_dir game_name compress_level w =
     (if \<not> os_path_exists w source_dir then (Inr False, w, [SaveFolderNotFound source_dir])
      else
        (case ensure_backup_dir backup_dir w of
           Inl e \<Rightarrow> (Inl e, w, [])
         | Inr (w1, ms1) \<Rightarrow>
            (let files_to_backup = os_walk_files source_dir w1 in
             if files_to_backup = [] then (Inr False, w1, ms1 @ [NoFilesInSaveFolder source_dir])
             else
               (case write_archive source_dir backup_dir game_name compress_level
                       files_to_backup w1 of
                  (r, w2, ms2) \<Rightarrow> (r, w2, ms1 @ ms2)))))"

text \<open>The body of the \<open>try\<close> block, lines 146 to 199: the archive, then the retention.\<close>

definition create_backup_body ::
  "path \<Rightarrow> path \<Rightarrow> string \<Rightarrow> int \<Rightarrow> int \<Rightarrow> ('t::linorder) world \<Rightarrow> (exn + bool) \<times> 't world \<times> msg list" where
  "create_backup_body source_dir backup_dir game_name max_backups compress_level w =
     (case archive_part source_dir backup_dir game_name compress_level w of
        (Inr True, w1, ms) \<Rightarrow>
          (case cleanup_old_backups backup_dir game_name max_backups w1 of
             (w2, ms') \<Rightarrow> (Inr True, w2, ms @ ms'))
      | (r, w1, ms) \<Rightarrow> (r, w1, ms))"

text \<open>The whole function: \<open>except Exception\<close> on line 201 turns every exception of the body
  into the result \<open>False\<close>. The result is kept in the type of a call that may raise,
  which is how the callers receive it. Here every print succeeds; \<open>create_backup_on\<close>
  below is the function on a console that may refuse what is printed.\<close>

definition create_backup ::
  "path \<Rightarrow> path \<Rightarrow> string \<Rightarrow> int \<Rightarrow> int \<Rightarrow> ('t::linorder) world \<Rightarrow> (exn + bool) \<times> 't world \<times> msg list" where
  "create_backup source_dir backup_dir game_name max_backups compress_level w =
     (case create_backup_body source_dir backup_dir game_name max_backups compress_level w of
        (Inl e, w', ms) \<Rightarrow> (Inr False, w', ms @ [ErrorCreatingBackup e])
      | (Inr b, w', ms) \<Rightarrow> (Inr b, w', ms))"

section \<open>The two triggers\<close>

type_synonym 't backup_func =
  "path \<Rightarrow> path \<Rightarrow> string \<Rightarrow> int \<Rightarrow> int \<Rightarrow> 't world \<Rightarrow> (exn + bool) \<times> 't world \<times> msg list"

text \<open>
  The closure returned by \<open>manual_backup_handler\<close>, called on F5. It reads the module-level
  variable \<open>backup_interval\<close>, here a parameter. There is no \<open>try\<close> in it: an exception
  of \<open>backup_func\<close> would leave the handler.
\<close>

definition manual_backup_handler ::
  "'t backup_func \<Rightarrow> path \<Rightarrow> path \<Rightarrow> string \<Rightarrow> int \<Rightarrow> int \<Rightarrow> int \<Rightarrow> 't world
     \<Rightarrow> (exn + unit) \<times> 't world \<times> msg list" where
  "manual_backup_handler backup_func source_dir backup_dir game_name max_backups compress_level
       backup_interval w =
     (case backup_func source_dir backup_dir game_name max_backups compress_level w of
        (Inl e, w', ms) \<Rightarrow> (Inl e, w', ManualBackupTriggered # ms)
      | (Inr b, w', ms) \<Rightarrow>
          (Inr (), w', ManualBackupTriggered # ms @ [NextAutomaticBackupIn backup_interval]))"

text \<open>\<open>time.sleep\<close> raises ValueError on a negative length, and OverflowError (or OSError)
  on a length the platform cannot wait for: \<open>max_sleep\<close> is the longest one it takes, about
  \<open>9.2 * 10^9\<close> seconds and less where the wake-up time is computed from the uptime.
  What happens to the world while the thread sleeps (the clock moves on, the game writes
  its saves) is \<open>elapse\<close>. Both are parameters of the scheduler.\<close>

definition time_sleep :: "int \<Rightarrow> ('t world \<Rightarrow> 't world) \<Rightarrow> int \<Rightarrow> 't world \<Rightarrow> exn + 't world" where
  "time_sleep max_sleep elapse secs w =
     (if secs < 0 then Inl ValueError
      else if secs > max_sleep then Inl OverflowError
      else Inr (elapse w))"

text \<open>
  \<open>auto_backup_scheduler\<close>: a \<open>while True\<close> loop, which only KeyboardInterrupt is caught
  around. The first argument counts the iterations that are observed; the result is
  \<open>None\<close> when the loop is still running after them and the exception that ended the
  thread otherwise.
\<close>

fun auto_backup_scheduler ::
  "nat \<Rightarrow> int \<Rightarrow> ('t world \<Rightarrow> 't world) \<Rightarrow> 't backup_func \<Rightarrow> path \<Rightarrow> path \<Rightarrow> string \<Rightarrow> int \<Rightarrow> int
     \<Rightarrow> int \<Rightarrow> 't world \<Rightarrow> exn option \<times> 't world \<times> msg list" where
  "auto_backup_scheduler 0 max_sleep elapse backup_func source_dir backup_dir game_name max_backups
       interval_minutes compress_level w = (None, w, [])"
| "auto_backup_scheduler (Suc k) max_sleep elapse backup_func source_dir backup_dir game_name max_backups
       interval_minutes compress_level w =
     (let interval = interval_minutes * 60 in
      case time_sleep max_sleep elapse interval w of
        Inl e \<Rightarrow> (Some e, w, [NextAutomaticBackupIn interval_minutes])
      | Inr w1 \<Rightarrow>
         (case backup_func source_dir backup_dir game_name max_backups compress_level w1 of
            (Inl e, w2, ms) \<Rightarrow>
              (Some e, w2, NextAutomaticBackupIn interval_minutes # AutomaticBackupOnSchedule # ms)
          | (Inr b, w2, ms) \<Rightarrow>
              (case auto_backup_scheduler k max_sleep elapse backup_func source_dir backup_dir game_name
                      max_backups interval_minutes compress_level w2 of
                 (e, w3, ms') \<Rightarrow>
                   (e, w3,
                    NextAutomaticBackupIn interval_minutes # AutomaticBackupOnSchedule # ms @ ms'))))"

section \<open>A console that refuses the output\<close>






section \<open>Two cycles on one filesystem\<close>

text \<open>
  \<open>main\<close> hands the same \<open>create_backup\<close> and the same arguments to the hotkey callback
  (line 345) and to the scheduler thread (line 373). Neither path takes a lock or reads
  a flag before it calls \<open>backup_func\<close>. To speak about two cycles at once, a cycle is
  cut where \<open>create_backup\<close> itself is cut: first the archive (lines 146 to 194, under
  the \<open>except\<close> of line 201), then \<open>cleanup_old_backups\<close>. \<open>in_cycle c d\<close> says that the cycle
  of origin \<open>d\<close> has written its archive and has not yet run its cleanup. A schedule is
  the order in which the two threads take their next step.
\<close>

datatype origin = Scheduled | Manual

record 't config =
  shared :: "'t world"
  in_cycle :: "origin \<Rightarrow> bool"

definition try_archive :: "path \<Rightarrow> path \<Rightarrow> string \<Rightarrow> int \<Rightarrow> 't world \<Rightarrow> bool \<times> 't world \<times> msg list" where
  "try_archive source_dir backup_dir game_name compress_level w =
     (case archive_part source_dir backup_dir game_name compress_level w of
        (Inl e, w', ms) \<Rightarrow> (False, w', ms @ [ErrorCreatingBackup e])
      | (Inr b, w', ms) \<Rightarrow> (b, w', ms))"

definition thread_step ::
  "path \<Rightarrow> path \<Rightarrow> string \<Rightarrow> int \<Rightarrow> int \<Rightarrow> origin \<Rightarrow> ('t::linorder) config \<Rightarrow> 't config" where
  "thread_step source_dir backup_dir game_name max_backups compress_level d c =
     (if in_cycle c d then
        c\<lparr>shared := fst (cleanup_old_backups backup_dir game_name max_backups (shared c)),
          in_cycle := (in_cycle c)(d := False)\<rparr>
      else
        (case try_archive source_dir backup_dir game_name compress_level (shared c) of
           (True, w', ms) \<Rightarrow> c\<lparr>shared := w', in_cycle := (in_cycle c)(d := True)\<rparr>
         | (False, w', ms) \<Rightarrow> c\<lparr>shared := w'\<rparr>))"

fun run_schedule ::
  "path \<Rightarrow> path \<Rightarrow> string \<Rightarrow> int \<Rightarrow> int \<Rightarrow> origin list \<Rightarrow> ('t::linorder) config \<Rightarrow> 't config" where
  "run_schedule source_dir backup_dir game_name max_backups compress_level [] c = c"
| "run_schedule source_dir backup_dir game_name max_backups compress_level (d # ds) c =
     run_schedule source_dir backup_dir game_name max_backups compress_level ds
       (thread_step source_dir backup_dir game_name max_backups compress_level d c)"

section \<open>Notions used in the statements\<close>


text \<open>The file a message of the \<open>while\<close> loop is about: the loop prints one message for
  every backup it pops, so the messages give the deletions that were attempted, in order.\<close>

fun deletion_of :: "msg \<Rightarrow> string option" where
  "deletion_of (OldBackupDeleted f) = Some f"
| "deletion_of (FailedToDelete p e) = Some (basename p)"
| "deletion_of _ = None"

definition deletions :: "msg list \<Rightarrow> string list" where
  "deletions ms = List.map_filter deletion_of ms"

text \<open>The paths that pass the test of line 213: a file of \<open>backup_dir\<close> whose name starts
  with \<open><game_name>_backup_\<close> and ends with \<open>.zip\<close>.\<close>

definition is_backup_path :: "path \<Rightarrow> string \<Rightarrow> path \<Rightarrow> bool" where
  "is_backup_path backup_dir game_name p =
     (p \<noteq> [] \<and> butlast p = backup_dir \<and> is_backup_name game_name (last p))"

text \<open>A label that is a plain name: it holds no path separator (\<open>/\<close>, and the backslash
  and the colon of a drive on Windows), so that \<open>os.path.join\<close> adds the file name built
  from it to \<open>backup_dir\<close> as one component.\<close>

definition plain_label :: "string \<Rightarrow> bool" where
  "plain_label game_name =
     (CHR ''/'' \<notin> set game_name \<and> CHR 0x5C \<notin> set game_name \<and> CHR '':'' \<notin> set game_name)"

text \<open>
  The naming convention in the words of the specification:
  \<open><label>_backup_<YYYYMMDD_HHMMSS>.<ext>\<close>, with \<open>zip\<close> for the extension.
\<close>

definition is_digit :: "char \<Rightarrow> bool" where
  "is_digit c = (c \<in> set ''0123456789'')"

definition is_timestamp :: "string \<Rightarrow> bool" where
  "is_timestamp ts =
     (length ts = 15 \<and> list_all is_digit (take 8 ts) \<and> ts ! 8 = CHR ''_'' \<and>
      list_all is_digit (drop 9 ts))"

definition spec_snapshot_name :: "string \<Rightarrow> string \<Rightarrow> bool" where
  "spec_snapshot_name label name =
     (let ts = take 15 (drop (length (label @ ''_backup_'')) name)
      in is_timestamp ts \<and> name = label @ ''_backup_'' @ ts @ ''.zip'')"

text \<open>The order of the specification: by creation time, ties by the file name.\<close>

definition spec_older :: "path \<times> ('t::linorder) \<Rightarrow> path \<times> 't \<Rightarrow> bool" where
  "spec_older a b = (snd a < snd b \<or> (snd a = snd b \<and> basename (fst a) \<le> basename (fst b)))"

section \<open>Example worlds\<close>

text \<open>Concrete inputs on which the theorems below are run.\<close>

definition example_now :: datetime where
  "example_now = \<lparr>dt_year = 2024, dt_month = 1, dt_day = 1, dt_hour = 12, dt_minute = 0, dt_second = 0\<rparr>"


definition foreign_world :: "nat world" where
  "foreign_world =
     \<lparr>fs = [([''B''], Dir 0),
             ([''B'', ''TLD_backup_test_backup_20240101_000000.zip''], File 1 (Bytes ''x'')),
             ([''B'', ''TLD_backup_old_saves.zip''], File 2 (Bytes ''y'')),
             ([''B'', ''TLD_backup_20240102_000000.zip''], File 3 (Bytes ''z''))],
      now = example_now, now_later = example_now, fs_clock = 5, mkdir_fails = False, open_fails = False,
      close_fails = False, unreadable = [], undeletable = []\<rparr>"

definition tie_world :: "nat world" where
  "tie_world =
     \<lparr>fs = [([''B''], Dir 0),
             ([''B'', ''TLD_backup_20240101_000002.zip''], File 7 (Bytes ''b'')),
             ([''B'', ''TLD_backup_20240101_000001.zip''], File 7 (Bytes ''a''))],
      now = example_now, now_later = example_now, fs_clock = 9, mkdir_fails = False, open_fails = False,
      close_fails = False, unreadable = [], undeletable = []\<rparr>"

definition tie_world_swapped :: "nat world" where
  "tie_world_swapped =
     \<lparr>fs = [([''B''], Dir 0),
             ([''B'', ''TLD_backup_20240101_000001.zip''], File 7 (Bytes ''a'')),
             ([''B'', ''TLD_backup_20240101_000002.zip''], File 7 (Bytes ''b''))],
      now = example_now, now_later = example_now, fs_clock = 9, mkdir_fails = False, open_fails = False,
      close_fails = False, unreadable = [], undeletable = []\<rparr>"

definition cycle_world :: "nat world" where
  "cycle_world =
     \<lparr>fs = [([''S''], Dir 0),
             ([''S'', ''save.dat''], File 1 (Bytes ''one'')),
             ([''B''], Dir 0),
             ([''B'', ''TLD_backup_20231231_120000.zip''], File 2 (Bytes ''old'')),
             ([''B'', ''notes.txt''], File 3 (Bytes ''n''))],
      now = example_now, now_later = example_now, fs_clock = 5, mkdir_fails = False, open_fails = False,
      close_fails = False, unreadable = [], undeletable = []\<rparr>"

definition fresh_world :: "nat world" where
  "fresh_world =
     \<lparr>fs = [([''S''], Dir 0),
             ([''S'', ''save.dat''], File 1 (Bytes ''one'')),
             ([''B''], Dir 0)],
      now = example_now, now_later = example_now, fs_clock = 5, mkdir_fails = False, open_fails = False,
      close_fails = False, unreadable = [], undeletable = []\<rparr>"

definition same_second_world :: "nat world" where
  "same_second_world =
     (let w1 = fst (snd (create_backup [''S''] [''B''] ''TLD'' 50 6 fresh_world))
      in w1\<lparr>fs := AList.update [''S'', ''save.dat''] (File 6 (Bytes ''two'')) (fs w1)\<rparr>)"



definition empty_source_world :: "nat world" where
  "empty_source_world =
     \<lparr>fs = [([''S''], Dir 0), ([''S'', ''old''], Dir 0)],
      now = example_now, now_later = example_now, fs_clock = 5, mkdir_fails = False, open_fails = False,
      close_fails = False, unreadable = [], undeletable = []\<rparr>"


definition idle_config :: "nat config" where
  "idle_config = \<lparr>shared = fresh_world, in_cycle = (\<lambda>d. False)\<rparr>"

definition scheduled_running_config :: "nat config" where
  "scheduled_running_config =
     thread_step [''S''] [''B''] ''TLD'' 50 6 Scheduled idle_config"

section \<open>Retention: which backups are deleted\<close>

lemma remove_excess_attempts:
  "0 \<le> k \<Longrightarrow> remove_excess k bs n w = (e, n', w', ms) \<Longrightarrow>
     e = None \<and> deletions ms = map (basename \<circ> fst) (take (length bs - nat k) bs)"
proof (induction bs arbitrary: n w e n' w' ms)
  case Nil
  then show ?case by (simp add: deletions_def)
next
  case (Cons b bs)
  show ?case
  proof (cases "int (length (b # bs)) > k")
    case False
    then have "length (b # bs) - nat k = 0" by auto
    with False Cons.prems show ?thesis by (simp add: deletions_def)
  next
    case True
    then have len: "length (b # bs) - nat k = Suc (length bs - nat k)"
      using Cons.prems(1) by auto
    show ?thesis
    proof (cases "os_remove (fst b) w")
      case (Inl ex)
      obtain e1 n1 w1 ms1 where r: "remove_excess k bs n w = (e1, n1, w1, ms1)"
        by (cases "remove_excess k bs n w") auto
      from Cons.IH[OF Cons.prems(1) r] True Inl r Cons.prems(2) len show ?thesis
        by (auto simp: deletions_def)
    next
      case (Inr w2)
      obtain e1 n1 w1 ms1 where r: "remove_excess k bs (n + 1) w2 = (e1, n1, w1, ms1)"
        by (cases "remove_excess k bs (n + 1) w2") auto
      from Cons.IH[OF Cons.prems(1) r] True Inr r Cons.prems(2) len show ?thesis
        by (auto simp: deletions_def)
    qed
  qed
qed



lemma collect_backups_paths:
  "collect_backups d g listing w = Inr bs \<Longrightarrow>
     map fst bs = map (\<lambda>f. d @ [f]) (filter (is_backup_name g) listing)"
  by (induction listing arbitrary: bs) (auto split: if_splits sum.splits)

lemma collect_backups_ctime:
  "collect_backups d g listing w = Inr bs \<Longrightarrow> (p, t) \<in> set bs \<Longrightarrow> os_getctime p w = Inr t"
  by (induction listing arbitrary: bs) (auto split: if_splits sum.splits)






section \<open>What a cycle leaves alone\<close>

lemma is_backup_name_filename: "is_backup_name g (backup_filename g d)"
  by (simp add: is_backup_name_def backup_filename_def suffix_def)

lemma is_backup_path_filename: "is_backup_path dst g (dst @ [backup_filename g d])"
  by (simp add: is_backup_path_def is_backup_name_filename)

lemma makedirs_lookup:
  "os_makedirs d w = Inr w1 \<Longrightarrow> map_of (fs w) p = Some n \<Longrightarrow> map_of (fs w1) p = Some n"
  by (auto simp: os_makedirs_def map_add_def split: if_splits option.splits)

lemma makedirs_new_is_dir:
  "os_makedirs d w = Inr w1 \<Longrightarrow> map_of (fs w) p = None \<Longrightarrow> \<not> is_file (map_of (fs w1) p)"
proof -
  assume a: "os_makedirs d w = Inr w1" and b: "map_of (fs w) p = None"
  let ?new = "map (\<lambda>p. (p, Dir (fs_clock w))) (filter (\<lambda>p. map_of (fs w) p = None) (parents d))"
  from a have f: "fs w1 = fs w @ ?new" by (auto simp: os_makedirs_def split: if_splits)
  have "map_of (fs w1) p = map_of ?new p" unfolding f using b by (simp add: map_add_def)
  moreover have "\<not> is_file (map_of ?new p)"
    by (cases "map_of ?new p") (auto dest!: map_of_SomeD)
  ultimately show ?thesis by simp
qed

lemma makedirs_fields:
  "os_makedirs d w = Inr w1 \<Longrightarrow>
     now w1 = now w \<and> now_later w1 = now_later w \<and> fs_clock w1 = fs_clock w \<and>
     open_fails w1 = open_fails w \<and>
     close_fails w1 = close_fails w \<and> unreadable w1 = unreadable w \<and> undeletable w1 = undeletable w"
  by (auto simp: os_makedirs_def split: if_splits)

lemma ensure_lookup:
  "ensure_backup_dir d w = Inr (w1, ms) \<Longrightarrow> map_of (fs w) p = Some n \<Longrightarrow> map_of (fs w1) p = Some n"
  by (auto simp: ensure_backup_dir_def makedirs_lookup split: if_splits sum.splits)

lemma ensure_new_is_dir:
  "ensure_backup_dir d w = Inr (w1, ms) \<Longrightarrow> map_of (fs w) p = None \<Longrightarrow> \<not> is_file (map_of (fs w1) p)"
  by (auto simp: ensure_backup_dir_def makedirs_new_is_dir split: if_splits sum.splits)

lemma ensure_fields:
  "ensure_backup_dir d w = Inr (w1, ms) \<Longrightarrow>
     now w1 = now w \<and> now_later w1 = now_later w \<and> fs_clock w1 = fs_clock w \<and>
     open_fails w1 = open_fails w \<and>
     close_fails w1 = close_fails w \<and> unreadable w1 = unreadable w \<and> undeletable w1 = undeletable w"
  by (auto simp: ensure_backup_dir_def split: if_splits sum.splits dest: makedirs_fields)

lemma ensure_msgs:
  "ensure_backup_dir d w = Inr (w1, ms) \<Longrightarrow> deletions ms = []"
  by (auto simp: ensure_backup_dir_def deletions_def split: if_splits sum.splits)

lemma add_files_fields:
  "add_files z src files w = (z', ms) \<Longrightarrow>
     zf_path z' = zf_path z \<and> zf_comment z' = zf_comment z \<and>
     zf_compression z' = zf_compression z \<and> zf_compresslevel z' = zf_compresslevel z"
proof (induction files arbitrary: z z' ms)
  case Nil
  then show ?case by simp
next
  case (Cons f files)
  show ?case
  proof (cases "zip_write z f (relpath f src) w")
    case (Inl e)
    with Cons.prems obtain ms' where "add_files z src files w = (z', ms')"
      by (auto split: prod.splits)
    from Cons.IH[OF this] show ?thesis .
  next
    case (Inr z1)
    with Cons.prems have r: "add_files z1 src files w = (z', ms)" by simp
    from Inr have "zf_path z1 = zf_path z \<and> zf_comment z1 = zf_comment z \<and>
       zf_compression z1 = zf_compression z \<and> zf_compresslevel z1 = zf_compresslevel z"
      by (auto simp: zip_write_def split: option.splits node.splits if_splits)
    with Cons.IH[OF r] show ?thesis by simp
  qed
qed

lemma add_files_msgs:
  "add_files z src files w = (z', ms) \<Longrightarrow> deletions ms = []"
proof (induction files arbitrary: z z' ms)
  case Nil
  then show ?case by (simp add: deletions_def)
next
  case (Cons f files)
  show ?case
  proof (cases "zip_write z f (relpath f src) w")
    case (Inl e)
    with Cons.prems obtain ms' where r: "add_files z src files w = (z', ms')"
      and m: "ms = FailedToAddFile f e # ms'"
      by (auto split: prod.splits)
    from Cons.IH[OF r] m show ?thesis by (simp add: deletions_def)
  next
    case (Inr z1)
    with Cons.prems have r: "add_files z1 src files w = (z', ms)" by simp
    from Cons.IH[OF r] show ?thesis .
  qed
qed

lemma add_files_levels:
  "add_files z src files w = (z', ms) \<Longrightarrow>
   \<forall>e \<in> set (zf_entries z). ecompresslevel e = zf_compresslevel z \<and> ecompression e = zf_compression z \<Longrightarrow>
   \<forall>e \<in> set (zf_entries z'). ecompresslevel e = zf_compresslevel z \<and> ecompression e = zf_compression z"
proof (induction files arbitrary: z z' ms)
  case Nil
  then show ?case by simp
next
  case (Cons f files)
  show ?case
  proof (cases "zip_write z f (relpath f src) w")
    case (Inl e)
    with Cons.prems(1) obtain ms' where r: "add_files z src files w = (z', ms')"
      by (auto split: prod.splits)
    from Cons.IH[OF r Cons.prems(2)] show ?thesis .
  next
    case (Inr z1)
    with Cons.prems(1) have r: "add_files z1 src files w = (z', ms)" by simp
    from Inr Cons.prems(2)
    have "zf_compression z1 = zf_compression z \<and> zf_compresslevel z1 = zf_compresslevel z \<and>
       (\<forall>e \<in> set (zf_entries z1). ecompresslevel e = zf_compresslevel z1 \<and> ecompression e = zf_compression z1)"
      by (auto simp: zip_write_def split: option.splits node.splits if_splits)
    with Cons.IH[OF r] show ?thesis by simp
  qed
qed

lemma deletions_simps:
  "deletions [] = []"
  "deletions (m # ms) = (case deletion_of m of None \<Rightarrow> deletions ms | Some f \<Rightarrow> f # deletions ms)"
  "deletions (a @ b) = deletions a @ deletions b"
  by (simp_all add: deletions_def List.map_filter_def split: option.splits)

lemma write_archive_frame:
  assumes "write_archive src dst g l files w = (r, w2, ms)"
    and "p \<noteq> dst @ [backup_filename g (now w)]"
  shows "map_of (fs w2) p = map_of (fs w) p"
  using assms
  by (auto simp: write_archive_def backup_filename_def zip_open_def zip_close_def Let_def
        update_conv' dest!: add_files_fields
        split: if_splits sum.splits prod.splits option.splits)

lemma write_archive_msgs:
  assumes "write_archive src dst g l files w = (r, w2, ms)"
  shows "deletions ms = []"
  using assms
  by (auto simp: write_archive_def Let_def deletions_simps
        split: if_splits sum.splits prod.splits option.splits dest!: add_files_msgs)

lemma write_archive_success:
  assumes "write_archive src dst g l files w = (Inr True, w2, ms)"
  shows "\<exists>es. map_of (fs w2) (dst @ [backup_filename g (now w)]) =
              Some (File (fs_clock w) (Archive True (Some (g, now_later w)) es)) \<and>
            (\<forall>e \<in> set es. ecompresslevel e = None \<and> ecompression e = ZIP_DEFLATED)"
proof -
  let ?bp = "dst @ [backup_filename g (now w)]"
  from assms obtain z w1 z' ms' where
    op: "zip_open ?bp ZIP_DEFLATED w = Inr (z, w1)" and
    ad: "add_files (z\<lparr>zf_comment := Some (g, now_later w1)\<rparr>) src files w1 = (z', ms')" and
    cl: "zip_close z' w1 = (None, w2)"
    by (auto simp: write_archive_def backup_filename_def Let_def
        split: if_splits sum.splits prod.splits option.splits)
  from op have z: "zf_path z = ?bp" "zf_compresslevel z = None" "zf_compression z = ZIP_DEFLATED"
     "zf_entries z = []" and w1: "now w1 = now w" "now_later w1 = now_later w" "fs_clock w1 = fs_clock w"
    by (auto simp: zip_open_def split: if_splits)
  from add_files_fields[OF ad] z w1
  have z': "zf_path z' = ?bp" "zf_comment z' = Some (g, now_later w)" by simp_all
  from add_files_levels[OF ad] z
  have lv: "\<forall>e \<in> set (zf_entries z'). ecompresslevel e = None \<and> ecompression e = ZIP_DEFLATED"
    by simp
  from cl z' w1 have "map_of (fs w2) ?bp =
      Some (File (fs_clock w) (Archive True (Some (g, now_later w)) (zf_entries z')))"
    by (auto simp: zip_close_def update_conv' split: if_splits)
  with lv show ?thesis by blast
qed


lemma archive_part_keeps:
  assumes "archive_part src dst g l w = (r, w1, ms)"
    and "p \<noteq> dst @ [backup_filename g (now w)]" and "map_of (fs w) p = Some n"
  shows "map_of (fs w1) p = Some n"
proof (cases "ensure_backup_dir dst w")
  case (Inl e)
  with assms show ?thesis by (auto simp: archive_part_def split: if_splits)
next
  case (Inr a)
  obtain wa msa where a: "a = (wa, msa)" by (cases a)
  note e = Inr[unfolded a]
  have n: "now wa = now w" using ensure_fields[OF e] by simp
  have k: "map_of (fs wa) p = Some n" using ensure_lookup[OF e assms(3)] .
  show ?thesis
  proof (cases "\<not> os_path_exists w src \<or> os_walk_files src wa = []")
    case True
    with assms e k show ?thesis by (auto simp: archive_part_def split: if_splits)
  next
    case False
    with assms(1) e obtain ms2 where
      wa: "write_archive src dst g l (os_walk_files src wa) wa = (r, w1, ms2)"
      by (auto simp: archive_part_def Let_def split: if_splits prod.splits)
    from write_archive_frame[OF wa] assms(2) n k show ?thesis by simp
  qed
qed


lemma archive_part_msgs:
  assumes "archive_part src dst g l w = (r, w1, ms)"
  shows "deletions ms = []"
  using assms
  by (auto simp: archive_part_def Let_def deletions_simps
        split: if_splits sum.splits prod.splits dest: ensure_msgs write_archive_msgs)

lemma archive_part_success:
  assumes "archive_part src dst g l w = (Inr True, w1, ms)"
  shows "\<exists>es. map_of (fs w1) (dst @ [backup_filename g (now w)]) =
              Some (File (fs_clock w) (Archive True (Some (g, now_later w)) es)) \<and>
            (\<forall>e \<in> set es. ecompresslevel e = None \<and> ecompression e = ZIP_DEFLATED)"
proof -
  from assms obtain wa msa ms2 where e: "ensure_backup_dir dst w = Inr (wa, msa)"
    and wa: "write_archive src dst g l (os_walk_files src wa) wa = (Inr True, w1, ms2)"
    by (auto simp: archive_part_def Let_def split: if_splits sum.splits prod.splits)
  from write_archive_success[OF wa] ensure_fields[OF e] show ?thesis by simp
qed

lemma os_remove_lookup:
  "os_remove q w = Inr w' \<Longrightarrow> map_of (fs w') p = (if p = q then None else map_of (fs w) p)"
  by (auto simp: os_remove_def delete_conv' split: if_splits)

lemma remove_excess_frame:
  "remove_excess k bs n w = (e, n', w', ms) \<Longrightarrow> p \<notin> fst ` set bs \<Longrightarrow>
     map_of (fs w') p = map_of (fs w) p"
proof (induction bs arbitrary: n w e n' w' ms)
  case Nil
  then show ?case by (auto split: if_splits)
next
  case (Cons b bs)
  show ?case
  proof (cases "int (length (b # bs)) > k")
    case False
    with Cons.prems show ?thesis by simp
  next
    case True
    show ?thesis
    proof (cases "os_remove (fst b) w")
      case (Inl ex)
      with True Cons.prems(1) obtain ms1 where r: "remove_excess k bs n w = (e, n', w', ms1)"
        by (auto split: prod.splits)
      from Cons.IH[OF r] Cons.prems(2) show ?thesis by simp
    next
      case (Inr w2)
      with True Cons.prems(1) obtain ms1 where r: "remove_excess k bs (n + 1) w2 = (e, n', w', ms1)"
        by (auto split: prod.splits)
      from Cons.IH[OF r] Cons.prems(2) os_remove_lookup[OF Inr, of p] show ?thesis by simp
    qed
  qed
qed

lemma remove_excess_only_removes:
  "remove_excess k bs n w = (e, n', w', ms) \<Longrightarrow> map_of (fs w') p = Some nd \<Longrightarrow>
     map_of (fs w) p = Some nd"
proof (induction bs arbitrary: n w e n' w' ms)
  case Nil
  then show ?case by (auto split: if_splits)
next
  case (Cons b bs)
  show ?case
  proof (cases "int (length (b # bs)) > k")
    case False
    with Cons.prems show ?thesis by simp
  next
    case True
    show ?thesis
    proof (cases "os_remove (fst b) w")
      case (Inl ex)
      with True Cons.prems(1) obtain ms1 where r: "remove_excess k bs n w = (e, n', w', ms1)"
        by (auto split: prod.splits)
      from Cons.IH[OF r Cons.prems(2)] show ?thesis .
    next
      case (Inr w2)
      with True Cons.prems(1) obtain ms1 where r: "remove_excess k bs (n + 1) w2 = (e, n', w', ms1)"
        by (auto split: prod.splits)
      from Cons.IH[OF r Cons.prems(2)] os_remove_lookup[OF Inr, of p] show ?thesis
        by (auto split: if_splits)
    qed
  qed
qed

lemma remove_excess_names:
  "remove_excess k bs n w = (e, n', w', ms) \<Longrightarrow>
     set (deletions ms) \<subseteq> (\<lambda>b. basename (fst b)) ` set bs"
proof (induction bs arbitrary: n w e n' w' ms)
  case Nil
  then show ?case by (auto simp: deletions_simps split: if_splits)
next
  case (Cons b bs)
  show ?case
  proof (cases "int (length (b # bs)) > k")
    case False
    with Cons.prems show ?thesis by (simp add: deletions_simps)
  next
    case True
    show ?thesis
    proof (cases "os_remove (fst b) w")
      case (Inl ex)
      with True Cons.prems(1) obtain ms1 where r: "remove_excess k bs n w = (e, n', w', ms1)"
        and m: "ms = FailedToDelete (fst b) ex # ms1"
        by (auto split: prod.splits)
      from Cons.IH[OF r] m show ?thesis by (auto simp: deletions_simps)
    next
      case (Inr w2)
      with True Cons.prems(1) obtain ms1 where r: "remove_excess k bs (n + 1) w2 = (e, n', w', ms1)"
        and m: "ms = OldBackupDeleted (basename (fst b)) # ms1"
        by (auto split: prod.splits)
      from Cons.IH[OF r] m show ?thesis by (auto simp: deletions_simps)
    qed
  qed
qed

lemma collect_backups_are_backup_paths:
  assumes "collect_backups d g listing w = Inr bs" and "b \<in> set bs"
  shows "is_backup_path d g (fst b) \<and> is_backup_name g (basename (fst b))"
proof -
  from assms(2) have "fst b \<in> set (map fst bs)" by simp
  then obtain f where "fst b = d @ [f]" "is_backup_name g f"
    unfolding collect_backups_paths[OF assms(1)] by auto
  then show ?thesis by (simp add: is_backup_path_def basename_def)
qed

lemma cleanup_cases:
  assumes "cleanup_old_backups d g k w = (w', ms)"
  obtains (failed) e where "w' = w" "ms = [ErrorCleaningUp e]"
  | (looped) listing bs e n ms1 where "os_listdir d w = Inr listing"
      "collect_backups d g listing w = Inr bs"
      "remove_excess k (sort_key snd bs) 0 w = (e, n, w', ms1)"
      "deletions ms = deletions ms1"
  using assms
  by (auto simp: cleanup_old_backups_def deletions_simps
      split: sum.splits prod.splits option.splits if_splits)

lemma cleanup_frame:
  assumes "cleanup_old_backups d g k w = (w', ms)" and "\<not> is_backup_path d g p"
  shows "map_of (fs w') p = map_of (fs w) p"
  using assms(1)
proof (cases rule: cleanup_cases)
  case (failed e)
  then show ?thesis by simp
next
  case (looped listing bs e n ms1)
  have "p \<notin> fst ` set (sort_key snd bs)"
    using collect_backups_are_backup_paths[OF looped(2)] assms(2) by auto
  from remove_excess_frame[OF looped(3) this] show ?thesis .
qed

lemma cleanup_only_removes:
  assumes "cleanup_old_backups d g k w = (w', ms)" and "map_of (fs w') p = Some nd"
  shows "map_of (fs w) p = Some nd"
  using assms(1)
proof (cases rule: cleanup_cases)
  case (failed e)
  with assms(2) show ?thesis by simp
next
  case (looped listing bs e n ms1)
  from remove_excess_only_removes[OF looped(3) assms(2)] show ?thesis .
qed

lemma cleanup_names:
  assumes "cleanup_old_backups d g k w = (w', ms)" and "f \<in> set (deletions ms)"
  shows "is_backup_name g f"
  using assms(1)
proof (cases rule: cleanup_cases)
  case (failed e)
  with assms(2) show ?thesis by (simp add: deletions_simps)
next
  case (looped listing bs e n ms1)
  from remove_excess_names[OF looped(3)] assms(2) looped(4)
  obtain b where "b \<in> set bs" "f = basename (fst b)" by auto
  with collect_backups_are_backup_paths[OF looped(2)] show ?thesis by simp
qed

lemma create_backup_cases:
  assumes "create_backup src dst g k l w = (r, w', ms)"
  obtains (no_archive) a w1 ms1 where "archive_part src dst g l w = (a, w1, ms1)" "a \<noteq> Inr True"
      "r = Inr False" "w' = w1" "deletions ms = []"
  | (archived) w1 ms1 ms2 where "archive_part src dst g l w = (Inr True, w1, ms1)"
      "cleanup_old_backups dst g k w1 = (w', ms2)" "r = Inr True" "ms = ms1 @ ms2"
proof (cases "archive_part src dst g l w")
  case (fields a w1 ms1)
  show ?thesis
  proof (cases "a = Inr True")
    case True
    obtain w2 ms2 where c: "cleanup_old_backups dst g k w1 = (w2, ms2)"
      by (cases "cleanup_old_backups dst g k w1")
    with fields True assms have "r = Inr True" "w' = w2" "ms = ms1 @ ms2"
      by (auto simp: create_backup_def create_backup_body_def)
    with fields True c archived show ?thesis by simp
  next
    case False
    with fields assms have "r = Inr False" "w' = w1"
      "ms = ms1 \<or> (\<exists>e. ms = ms1 @ [ErrorCreatingBackup e])"
      by (auto simp: create_backup_def create_backup_body_def split: sum.splits bool.splits)
    moreover from this archive_part_msgs[OF fields] have "deletions ms = []"
      by (auto simp: deletions_simps)
    ultimately show ?thesis using fields False no_archive by simp
  qed
qed

lemmas eval_defs = cleanup_old_backups_def os_listdir_def os_getctime_def os_remove_def
  is_backup_name_def basename_def suffix_to_prefix deletions_def List.map_filter_def

lemmas cycle_defs = create_backup_def create_backup_body_def archive_part_def write_archive_def
  ensure_backup_dir_def os_path_exists_def os_walk_files_def zip_open_def zip_write_def
  zip_close_def relpath_def strftime_def pad2_def pad4_def dig_def Let_def

text \<open>
  Claim C8, as the code has it. The test of line 213 is a test of the beginning and the
  end of the name, not of the whole naming convention. The label is a plain name, with
  no path separator in it, so that the archive is a file of \<open>backup_dir\<close>. Whatever a cycle
  does (archive, then retention), a path that is not a file of \<open>backup_dir\<close> whose name starts with
  \<open><game_name>_backup_\<close> and ends with \<open>.zip\<close> keeps its node, and every deletion the cycle
  attempts is the deletion of a name that passes this test.
\<close>

theorem cycle_spares_other_files:
  fixes w :: "('t::linorder) world"
  assumes "create_backup source_dir backup_dir game_name max_backups compress_level w = (r, w', ms)"
    and "\<not> is_backup_path backup_dir game_name p"
    and "map_of (fs w) p = Some nd"
    and "plain_label game_name"
  shows "map_of (fs w') p = Some nd \<and> list_all (is_backup_name game_name) (deletions ms)"
  using assms(1)
proof (cases rule: create_backup_cases)
  case (no_archive a w1 ms1)
  have "p \<noteq> backup_dir @ [backup_filename game_name (now w)]"
    using assms(2) is_backup_path_filename by blast
  from archive_part_keeps[OF no_archive(1) this assms(3)] no_archive(4,5)
  show ?thesis by simp
next
  case (archived w1 ms1 ms2)
  have "p \<noteq> backup_dir @ [backup_filename game_name (now w)]"
    using assms(2) is_backup_path_filename by blast
  from archive_part_keeps[OF archived(1) this assms(3)] cleanup_frame[OF archived(2) assms(2)]
  have 1: "map_of (fs w') p = Some nd" by simp
  have "deletions ms = deletions ms2"
    using archived(4) archive_part_msgs[OF archived(1)] by (simp add: deletions_simps)
  with cleanup_names[OF archived(2)] have "list_all (is_backup_name game_name) (deletions ms)"
    by (simp add: list_all_iff)
  with 1 show ?thesis by simp
qed

theorem cycle_spares_other_files_witness:
  "plain_label ''TLD'' \<and>
   \<not> is_backup_path [''B''] ''TLD'' [''B'', ''notes.txt''] \<and>
   map_of (fs cycle_world) [''B'', ''notes.txt''] = Some (File 3 (Bytes ''n'')) \<and>
   map_of (fs (fst (snd (create_backup [''S''] [''B''] ''TLD'' 1 6 cycle_world))))
     [''B'', ''notes.txt''] = Some (File 3 (Bytes ''n'')) \<and>
   list_all (is_backup_name ''TLD'')
     (deletions (snd (snd (create_backup [''S''] [''B''] ''TLD'' 1 6 cycle_world))))"
proof -
  have h1: "create_backup [''S''] [''B''] ''TLD'' 1 6 cycle_world =
     (fst (create_backup [''S''] [''B''] ''TLD'' 1 6 cycle_world),
      fst (snd (create_backup [''S''] [''B''] ''TLD'' 1 6 cycle_world)),
      snd (snd (create_backup [''S''] [''B''] ''TLD'' 1 6 cycle_world)))" by simp
  have h2: "\<not> is_backup_path [''B''] ''TLD'' [''B'', ''notes.txt'']"
    by (simp add: is_backup_path_def is_backup_name_def)
  have h3: "map_of (fs cycle_world) [''B'', ''notes.txt''] = Some (File 3 (Bytes ''n''))"
    by (simp add: cycle_world_def)
  have h4: "plain_label ''TLD''" by (simp add: plain_label_def)
  from cycle_spares_other_files[OF h1 h2 h3 h4] h2 h3 h4 show ?thesis by simp
qed

text \<open>
  The claim as written fails: with the label \<open>TLD\<close>, the snapshot of another label,
  \<open>TLD_backup_test\<close>, and a file that has no timestamp in its name both pass the test of
  line 213. Neither follows the naming convention for \<open>TLD\<close>, and both are deleted.
\<close>

theorem retention_ignores_convention_counterexample:
  "spec_snapshot_name ''TLD_backup_test'' ''TLD_backup_test_backup_20240101_000000.zip'' \<and>
   \<not> spec_snapshot_name ''TLD'' ''TLD_backup_test_backup_20240101_000000.zip'' \<and>
   \<not> spec_snapshot_name ''TLD'' ''TLD_backup_old_saves.zip'' \<and>
   deletions (snd (cleanup_old_backups [''B''] ''TLD'' 1 foreign_world)) =
     [''TLD_backup_test_backup_20240101_000000.zip'', ''TLD_backup_old_saves.zip''] \<and>
   map fst (fs (fst (cleanup_old_backups [''B''] ''TLD'' 1 foreign_world))) =
     [[''B''], [''B'', ''TLD_backup_20240102_000000.zip'']]"
  by (simp add: spec_snapshot_name_def is_timestamp_def is_digit_def eval_defs foreign_world_def)

section \<open>Retention: the order of the deletions\<close>

text \<open>
  Claim C6, as the code has it. The backups are collected in the order of the directory
  listing and sorted by creation time, oldest first. The sort compares nothing but the
  creation time and is stable: backups with the same creation time stay in the order of
  the listing. The deletions are attempted on the first ones of this list, in its order.
\<close>

theorem retention_order_is_stable:
  fixes w :: "('t::linorder) world"
  assumes "0 \<le> keep"
    and "os_listdir backup_dir w = Inr listing"
    and "collect_backups backup_dir game_name listing w = Inr backups"
    and "cleanup_old_backups backup_dir game_name keep w = (w', ms)"
    and "ordered = sort_key snd backups"
  shows "map fst backups = map (\<lambda>f. backup_dir @ [f]) (filter (is_backup_name game_name) listing) \<and>
         sorted (map snd ordered) \<and>
         (\<forall>t. filter (\<lambda>b. snd b = t) ordered = filter (\<lambda>b. snd b = t) backups) \<and>
         deletions ms = map (basename \<circ> fst) (take (length backups - nat keep) ordered)"
proof -
  obtain e n w1 ms1 where re: "remove_excess keep ordered 0 w = (e, n, w1, ms1)"
    by (cases "remove_excess keep ordered 0 w") auto
  from remove_excess_attempts[OF assms(1) re]
  have e: "e = None" and att: "deletions ms1 = map (basename \<circ> fst) (take (length backups - nat keep) ordered)"
    by (simp_all add: assms(5))
  from assms(2,3,4) re e have "ms = ms1 @ (if n > 0 then [OldBackupsDeleted n] else [])"
    by (auto simp: cleanup_old_backups_def assms(5))
  with att have "deletions ms = map (basename \<circ> fst) (take (length backups - nat keep) ordered)"
    by (simp add: deletions_simps)
  moreover have "sorted (map snd ordered)" by (simp add: assms(5))
  moreover have "\<forall>t. filter (\<lambda>b. snd b = t) ordered = filter (\<lambda>b. snd b = t) backups"
    by (simp add: assms(5) sort_key_stable)
  ultimately show ?thesis using collect_backups_paths[OF assms(3)] by simp
qed

theorem retention_order_is_stable_witness:
  "(0::int) \<le> 1 \<and>
   os_listdir [''B''] tie_world =
     Inr [''TLD_backup_20240101_000002.zip'', ''TLD_backup_20240101_000001.zip''] \<and>
   collect_backups [''B''] ''TLD''
     [''TLD_backup_20240101_000002.zip'', ''TLD_backup_20240101_000001.zip''] tie_world =
     Inr [([''B'', ''TLD_backup_20240101_000002.zip''], 7),
          ([''B'', ''TLD_backup_20240101_000001.zip''], 7)] \<and>
   sort_key snd [([''B'', ''TLD_backup_20240101_000002.zip''], 7::nat),
                 ([''B'', ''TLD_backup_20240101_000001.zip''], 7)] =
     [([''B'', ''TLD_backup_20240101_000002.zip''], 7),
      ([''B'', ''TLD_backup_20240101_000001.zip''], 7)] \<and>
   deletions (snd (cleanup_old_backups [''B''] ''TLD'' 1 tie_world)) =
     [''TLD_backup_20240101_000002.zip'']"
proof -
  let ?listing = "[''TLD_backup_20240101_000002.zip'', ''TLD_backup_20240101_000001.zip'']"
  let ?backups = "[([''B'', ''TLD_backup_20240101_000002.zip''], 7::nat),
                   ([''B'', ''TLD_backup_20240101_000001.zip''], 7)]"
  have h1: "(0::int) \<le> 1" by simp
  have h2: "os_listdir [''B''] tie_world = Inr ?listing"
    by (simp add: os_listdir_def tie_world_def)
  have h3: "collect_backups [''B''] ''TLD'' ?listing tie_world = Inr ?backups"
    by (simp add: is_backup_name_def os_getctime_def tie_world_def suffix_to_prefix)
  have h4: "cleanup_old_backups [''B''] ''TLD'' 1 tie_world =
      (fst (cleanup_old_backups [''B''] ''TLD'' 1 tie_world),
       snd (cleanup_old_backups [''B''] ''TLD'' 1 tie_world))" by simp
  from retention_order_is_stable[OF h1 h2 h3 h4 refl] h1 h2 h3
  show ?thesis by (simp add: basename_def)
qed

text \<open>
  The claim as written fails: two snapshots with the same creation time are not put
  in the order of their names. The one the directory lists first is deleted first, so
  the same two files listed in the other order lose the other one.
\<close>

theorem retention_tie_counterexample:
  "os_listdir [''B''] tie_world =
     Inr [''TLD_backup_20240101_000002.zip'', ''TLD_backup_20240101_000001.zip''] \<and>
   collect_backups [''B''] ''TLD''
     [''TLD_backup_20240101_000002.zip'', ''TLD_backup_20240101_000001.zip''] tie_world =
     Inr [([''B'', ''TLD_backup_20240101_000002.zip''], 7),
          ([''B'', ''TLD_backup_20240101_000001.zip''], 7)] \<and>
   \<not> sorted_wrt spec_older
       (sort_key snd [([''B'', ''TLD_backup_20240101_000002.zip''], 7::nat),
                      ([''B'', ''TLD_backup_20240101_000001.zip''], 7)]) \<and>
   deletions (snd (cleanup_old_backups [''B''] ''TLD'' 1 tie_world)) =
     [''TLD_backup_20240101_000002.zip''] \<and>
   set (fs tie_world_swapped) = set (fs tie_world) \<and>
   deletions (snd (cleanup_old_backups [''B''] ''TLD'' 1 tie_world_swapped)) =
     [''TLD_backup_20240101_000001.zip'']"
  by (simp add: spec_older_def eval_defs tie_world_def tie_world_swapped_def insert_commute)

section \<open>The name of the archive\<close>

lemma dig_inj: "dig n = dig m \<Longrightarrow> n mod 10 = m mod 10"
proof -
  assume a: "dig n = dig m"
  have d: "distinct ''0123456789''" by simp
  have "n mod 10 < length ''0123456789''" "m mod 10 < length ''0123456789''" by simp_all
  with a d show ?thesis unfolding dig_def by (simp only: nth_eq_iff_index_eq)
qed

lemma dig_is_digit: "is_digit (dig n)"
proof -
  have "n mod 10 < length ''0123456789''" by simp
  then have "''0123456789'' ! (n mod 10) \<in> set ''0123456789''" by (rule nth_mem)
  then show ?thesis by (simp only: dig_def is_digit_def)
qed

lemma div_mod_10_eq: "(x::nat) div 10 = y div 10 \<Longrightarrow> x mod 10 = y mod 10 \<Longrightarrow> x = y"
  by (metis div_mult_mod_eq)

lemma pad2_inj: "n < 100 \<Longrightarrow> m < 100 \<Longrightarrow> pad2 n = pad2 m \<Longrightarrow> n = m"
proof -
  assume n: "n < 100" and m: "m < 100" and e: "pad2 n = pad2 m"
  from e have 1: "(n div 10) mod 10 = (m div 10) mod 10" and 0: "n mod 10 = m mod 10"
    by (auto simp: pad2_def dest: dig_inj)
  from n m have "n div 10 < 10" "m div 10 < 10" by simp_all
  with 1 have "n div 10 = m div 10" by simp
  with 0 show ?thesis by (rule div_mod_10_eq[rotated])
qed

lemma pad4_inj: "n < 10000 \<Longrightarrow> m < 10000 \<Longrightarrow> pad4 n = pad4 m \<Longrightarrow> n = m"
proof -
  assume n: "n < 10000" and m: "m < 10000" and e: "pad4 n = pad4 m"
  from e have 3: "(n div 1000) mod 10 = (m div 1000) mod 10"
    and 2: "(n div 100) mod 10 = (m div 100) mod 10"
    and 1: "(n div 10) mod 10 = (m div 10) mod 10" and 0: "n mod 10 = m mod 10"
    by (auto simp: pad4_def dest: dig_inj)
  from n m have "n div 1000 < 10" "m div 1000 < 10" by simp_all
  with 3 have "n div 1000 = m div 1000" by simp
  then have "(n div 100) div 10 = (m div 100) div 10" by (simp add: div_mult2_eq[symmetric])
  from div_mod_10_eq[OF this 2] have "n div 100 = m div 100" .
  then have "(n div 10) div 10 = (m div 10) div 10" by (simp add: div_mult2_eq[symmetric])
  from div_mod_10_eq[OF this 1] have "n div 10 = m div 10" .
  from div_mod_10_eq[OF this 0] show ?thesis .
qed

lemma strftime_inj:
  assumes "valid_datetime d" and "valid_datetime d'" and "strftime d = strftime d'"
  shows "d = d'"
proof -
  have l2: "length (pad2 n) = 2" and l4: "length (pad4 n) = 4" for n
    by (simp_all add: pad2_def pad4_def)
  from assms(3) have "pad4 (dt_year d) = pad4 (dt_year d')" "pad2 (dt_month d) = pad2 (dt_month d')"
    "pad2 (dt_day d) = pad2 (dt_day d')" "pad2 (dt_hour d) = pad2 (dt_hour d')"
    "pad2 (dt_minute d) = pad2 (dt_minute d')" "pad2 (dt_second d) = pad2 (dt_second d')"
    by (simp_all add: strftime_def l2 l4)
  with assms(1,2) have "dt_year d = dt_year d'" "dt_month d = dt_month d'" "dt_day d = dt_day d'"
    "dt_hour d = dt_hour d'" "dt_minute d = dt_minute d'" "dt_second d = dt_second d'"
    by (auto simp: valid_datetime_def intro: pad2_inj pad4_inj)
  then show ?thesis by simp
qed

lemma strftime_is_timestamp: "is_timestamp (strftime d)"
  by (simp add: is_timestamp_def strftime_def pad2_def pad4_def dig_is_digit)

lemma backup_filename_follows_spec: "spec_snapshot_name g (backup_filename g d)"
proof -
  have "length (strftime d) = 15" using strftime_is_timestamp by (simp add: is_timestamp_def)
  then show ?thesis
    by (simp add: spec_snapshot_name_def backup_filename_def strftime_is_timestamp)
qed

text \<open>
  Claim C3, as the code has it. The archive is written to
  \<open>backup_dir/<game_name>_backup_<YYYYMMDD_HHMMSS>.zip\<close>, the timestamp being the reading
  of the clock to the second. After a successful write the file of that name is the new
  archive, whatever was there before: no collision is detected and no suffix is added.
  Two readings of the clock that differ give two different names.
\<close>

theorem archive_name_from_clock:
  assumes "archive_part source_dir backup_dir game_name compress_level w = (Inr True, w1, ms)"
  shows "spec_snapshot_name game_name (backup_filename game_name (now w)) \<and>
         (\<exists>t es. map_of (fs w1) (backup_dir @ [backup_filename game_name (now w)]) =
            Some (File t (Archive True (Some (game_name, now_later w)) es))) \<and>
         (\<forall>d. valid_datetime (now w) \<and> valid_datetime d \<and> d \<noteq> now w \<longrightarrow>
            backup_filename game_name d \<noteq> backup_filename game_name (now w))"
proof -
  have "backup_filename game_name d \<noteq> backup_filename game_name (now w)"
    if "valid_datetime (now w)" "valid_datetime d" "d \<noteq> now w" for d
  proof
    assume "backup_filename game_name d = backup_filename game_name (now w)"
    then have "strftime d = strftime (now w)" by (simp add: backup_filename_def)
    from strftime_inj[OF that(2,1) this] that(3) show False by simp
  qed
  with archive_part_success[OF assms] backup_filename_follows_spec show ?thesis by blast
qed

theorem archive_name_from_clock_witness:
  "archive_part [''S''] [''B''] ''TLD'' 6 fresh_world =
     (Inr True,
      fresh_world\<lparr>fs := fs fresh_world @
        [([''B'', ''TLD_backup_20240101_120000.zip''],
          File 5 (Archive True (Some (''TLD'', example_now))
                   [ZEntry [''save.dat''] (Bytes ''one'') ZIP_DEFLATED None]))]\<rparr>,
      [BackupCreated ''TLD_backup_20240101_120000.zip'' 1]) \<and>
   backup_filename ''TLD'' (now fresh_world) = ''TLD_backup_20240101_120000.zip'' \<and>
   spec_snapshot_name ''TLD'' ''TLD_backup_20240101_120000.zip'' \<and>
   valid_datetime (now fresh_world) \<and>
   valid_datetime (example_now\<lparr>dt_second := 1\<rparr>) \<and>
   backup_filename ''TLD'' (example_now\<lparr>dt_second := 1\<rparr>) \<noteq> ''TLD_backup_20240101_120000.zip''"
proof -
  have h: "archive_part [''S''] [''B''] ''TLD'' 6 fresh_world =
     (Inr True,
      fresh_world\<lparr>fs := fs fresh_world @
        [([''B'', ''TLD_backup_20240101_120000.zip''],
          File 5 (Archive True (Some (''TLD'', example_now))
                   [ZEntry [''save.dat''] (Bytes ''one'') ZIP_DEFLATED None]))]\<rparr>,
      [BackupCreated ''TLD_backup_20240101_120000.zip'' 1])"
    by (simp add: cycle_defs fresh_world_def example_now_def)
  have n: "backup_filename ''TLD'' (now fresh_world) = ''TLD_backup_20240101_120000.zip''"
    by (simp add: backup_filename_def cycle_defs fresh_world_def example_now_def)
  have v: "valid_datetime (now fresh_world)" "valid_datetime (example_now\<lparr>dt_second := 1\<rparr>)"
    "example_now\<lparr>dt_second := 1\<rparr> \<noteq> now fresh_world"
    by (simp_all add: valid_datetime_def fresh_world_def example_now_def)
  from archive_name_from_clock[OF h] v n h show ?thesis by simp
qed

text \<open>
  The claim as written fails: a second cycle that starts in the same second, after the
  save has changed, returns \<open>True\<close> like the first, and the directory holds one archive of
  the same name, with the new content in place of the old.
\<close>

theorem same_second_overwrite_counterexample:
  "now same_second_world = now fresh_world \<and>
   create_backup [''S''] [''B''] ''TLD'' 50 6 fresh_world =
     (Inr True,
      fresh_world\<lparr>fs := fs fresh_world @
        [([''B'', ''TLD_backup_20240101_120000.zip''],
          File 5 (Archive True (Some (''TLD'', example_now))
                   [ZEntry [''save.dat''] (Bytes ''one'') ZIP_DEFLATED None]))]\<rparr>,
      [BackupCreated ''TLD_backup_20240101_120000.zip'' 1]) \<and>
   fst (create_backup [''S''] [''B''] ''TLD'' 50 6 same_second_world) = Inr True \<and>
   snd (snd (create_backup [''S''] [''B''] ''TLD'' 50 6 same_second_world)) =
     [BackupCreated ''TLD_backup_20240101_120000.zip'' 1] \<and>
   os_listdir [''B''] (fst (snd (create_backup [''S''] [''B''] ''TLD'' 50 6 same_second_world))) =
     Inr [''TLD_backup_20240101_120000.zip''] \<and>
   map_of (fs (fst (snd (create_backup [''S''] [''B''] ''TLD'' 50 6 same_second_world))))
       [''B'', ''TLD_backup_20240101_120000.zip''] =
     Some (File 5 (Archive True (Some (''TLD'', example_now))
                    [ZEntry [''save.dat''] (Bytes ''two'') ZIP_DEFLATED None]))"
proof -
  have 1: "create_backup [''S''] [''B''] ''TLD'' 50 6 fresh_world =
     (Inr True,
      fresh_world\<lparr>fs := fs fresh_world @
        [([''B'', ''TLD_backup_20240101_120000.zip''],
          File 5 (Archive True (Some (''TLD'', example_now))
                   [ZEntry [''save.dat''] (Bytes ''one'') ZIP_DEFLATED None]))]\<rparr>,
      [BackupCreated ''TLD_backup_20240101_120000.zip'' 1])"
    by (simp add: cycle_defs eval_defs fresh_world_def example_now_def)
  have 2: "same_second_world =
      fresh_world\<lparr>fs := [([''S''], Dir 0), ([''S'', ''save.dat''], File 6 (Bytes ''two'')),
        ([''B''], Dir 0),
        ([''B'', ''TLD_backup_20240101_120000.zip''],
          File 5 (Archive True (Some (''TLD'', example_now))
                   [ZEntry [''save.dat''] (Bytes ''one'') ZIP_DEFLATED None]))]\<rparr>"
    unfolding same_second_world_def 1 by (simp add: fresh_world_def)
  have 3: "create_backup [''S''] [''B''] ''TLD'' 50 6 same_second_world =
     (Inr True,
      fresh_world\<lparr>fs := [([''S''], Dir 0), ([''S'', ''save.dat''], File 6 (Bytes ''two'')),
        ([''B''], Dir 0),
        ([''B'', ''TLD_backup_20240101_120000.zip''],
          File 5 (Archive True (Some (''TLD'', example_now))
                   [ZEntry [''save.dat''] (Bytes ''two'') ZIP_DEFLATED None]))]\<rparr>,
      [BackupCreated ''TLD_backup_20240101_120000.zip'' 1])"
    unfolding 2 by (simp add: cycle_defs eval_defs fresh_world_def example_now_def)
  show ?thesis unfolding 3 unfolding 2 1 by (simp add: os_listdir_def fresh_world_def)
qed

section \<open>The compression level\<close>

lemma write_archive_level: "write_archive s b g l = write_archive s b g l'"
  by (intro ext) (simp add: write_archive_def)

lemma archive_part_level: "archive_part s b g l = archive_part s b g l'"
  unfolding archive_part_def write_archive_level[of s b g l l'] ..

lemma compress_level_unused:
  "create_backup s b g k l w = create_backup s b g k l' w"
  unfolding create_backup_def create_backup_body_def archive_part_level[of s b g l l'] ..

text \<open>
  Claim C4 against the code. With the level 9 configured, the entry of the archive is
  written with \<open>compresslevel = None\<close>, the library's default: line 174 clamps the level
  and nothing uses the result. The same call with the level 0 gives the same archive.
\<close>

theorem configured_level_not_applied:
  "create_backup [''S''] [''B''] ''TLD'' 50 9 fresh_world =
     (Inr True,
      fresh_world\<lparr>fs := fs fresh_world @
        [([''B'', ''TLD_backup_20240101_120000.zip''],
          File 5 (Archive True (Some (''TLD'', example_now))
                   [ZEntry [''save.dat''] (Bytes ''one'') ZIP_DEFLATED None]))]\<rparr>,
      [BackupCreated ''TLD_backup_20240101_120000.zip'' 1]) \<and>
   create_backup [''S''] [''B''] ''TLD'' 50 9 fresh_world =
     create_backup [''S''] [''B''] ''TLD'' 50 0 fresh_world"
  by (simp add: cycle_defs eval_defs fresh_world_def example_now_def)

section \<open>What the archive step writes\<close>





section \<open>An empty source\<close>

lemma ensure_walk:
  assumes "ensure_backup_dir dst w = Inr (w1, ms)" and "os_path_exists w src"
  shows "os_walk_files src w1 = os_walk_files src w"
proof (cases "os_path_exists w dst")
  case True
  with assms(1) show ?thesis by (simp add: ensure_backup_dir_def)
next
  case False
  with assms(1) have m: "os_makedirs dst w = Inr w1"
    by (auto simp: ensure_backup_dir_def split: sum.splits)
  let ?new = "map (\<lambda>p. (p, Dir (fs_clock w))) (filter (\<lambda>p. map_of (fs w) p = None) (parents dst))"
  from m have f: "fs w1 = fs w @ ?new" by (auto simp: os_makedirs_def split: if_splits)
  from assms(2) obtain nd where s: "map_of (fs w) src = Some nd"
    by (auto simp: os_path_exists_def)
  from makedirs_lookup[OF m s] s have d: "map_of (fs w1) src = map_of (fs w) src" by simp
  have "filter (\<lambda>(p, n). is_file (Some n) \<and> strict_prefix src p) ?new = []"
    by (auto simp: filter_empty_conv)
  then have "filter (\<lambda>(p, n). is_file (Some n) \<and> strict_prefix src p) (fs w1) =
      filter (\<lambda>(p, n). is_file (Some n) \<and> strict_prefix src p) (fs w)"
    unfolding f by simp
  then show ?thesis by (simp add: os_walk_files_def d)
qed

text \<open>
  Claim C7. When the source exists and the enumeration finds no file in it, the cycle
  returns \<open>False\<close> and creates or changes no file: no archive is written. The reason
  printed is that of line 164, after the message about the backup folder if it had to
  be created; only when the backup folder cannot be created is the enumeration never
  reached, and the error of \<open>os.makedirs\<close> is what is reported.
\<close>

theorem empty_source_is_refused:
  fixes w :: "('t::linorder) world"
  assumes "os_path_exists w source_dir"
    and "os_walk_files source_dir w = []"
    and "create_backup source_dir backup_dir game_name max_backups compress_level w = (r, w', ms)"
  shows "r = Inr False \<and>
         (\<forall>p. is_file (map_of (fs w') p) \<longrightarrow> map_of (fs w') p = map_of (fs w) p) \<and>
         ms = (case ensure_backup_dir backup_dir w of
                 Inl e \<Rightarrow> [ErrorCreatingBackup e]
               | Inr (w1, ms1) \<Rightarrow> ms1 @ [NoFilesInSaveFolder source_dir])"
proof (cases "ensure_backup_dir backup_dir w")
  case (Inl e)
  with assms show ?thesis
    by (auto simp: create_backup_def create_backup_body_def archive_part_def)
next
  case (Inr a)
  obtain w1 ms1 where a: "a = (w1, ms1)" by (cases a)
  note e = Inr[unfolded a]
  from ensure_walk[OF e assms(1)] assms(2) have "os_walk_files source_dir w1 = []" by simp
  with assms(1,3) e have r: "r = Inr False" "w' = w1" "ms = ms1 @ [NoFilesInSaveFolder source_dir]"
    by (auto simp: create_backup_def create_backup_body_def archive_part_def)
  have "map_of (fs w1) p = map_of (fs w) p" if "is_file (map_of (fs w1) p)" for p
  proof (cases "map_of (fs w) p")
    case None
    from ensure_new_is_dir[OF e None] that show ?thesis by simp
  next
    case (Some nd)
    from ensure_lookup[OF e Some] Some show ?thesis by simp
  qed
  with r e show ?thesis by simp
qed

theorem empty_source_is_refused_witness:
  "os_path_exists empty_source_world [''S''] \<and>
   os_walk_files [''S''] empty_source_world = [] \<and>
   create_backup [''S''] [''B''] ''TLD'' 50 6 empty_source_world =
     (Inr False, empty_source_world\<lparr>fs := fs empty_source_world @ [([''B''], Dir 5)]\<rparr>,
      [BackupFolderCreated [''B''], NoFilesInSaveFolder [''S'']]) \<and>
   \<not> is_file (map_of (fs empty_source_world @ [([''B''], Dir (5::nat))])
        [''B'', ''TLD_backup_20240101_120000.zip''])"
proof -
  let ?w' = "empty_source_world\<lparr>fs := fs empty_source_world @ [([''B''], Dir 5)]\<rparr>"
  have h1: "os_path_exists empty_source_world [''S'']"
    by (simp add: os_path_exists_def empty_source_world_def)
  have h2: "os_walk_files [''S''] empty_source_world = []"
    by (simp add: os_walk_files_def empty_source_world_def)
  have h3: "create_backup [''S''] [''B''] ''TLD'' 50 6 empty_source_world =
     (Inr False, ?w', [BackupFolderCreated [''B''], NoFilesInSaveFolder [''S'']])"
    by (simp add: cycle_defs os_makedirs_def parents_def empty_source_world_def example_now_def)
  have e: "map_of (fs empty_source_world) [''B'', ''TLD_backup_20240101_120000.zip''] = None"
    by (simp add: empty_source_world_def)
  note th = empty_source_is_refused[OF h1 h2 h3, THEN conjunct2, THEN conjunct1]
  have 4: "\<not> is_file (map_of (fs ?w') [''B'', ''TLD_backup_20240101_120000.zip''])"
  proof
    assume i: "is_file (map_of (fs ?w') [''B'', ''TLD_backup_20240101_120000.zip''])"
    note eq = th[rule_format, OF i]
    from i show False unfolding eq e by simp
  qed
  from h1 h2 h3 4 show ?thesis by simp
qed

section \<open>Exceptions and the scheduler\<close>

lemma create_backup_returns:
  "\<exists>b. fst (create_backup src dst g k l w) = Inr b"
  by (auto simp: create_backup_def split: prod.splits sum.splits)







section \<open>Manual and scheduled cycles\<close>

text \<open>
  Claim C10. On the same world the F5 handler and one iteration of the scheduler call
  \<open>create_backup\<close> with the same arguments: they leave the same world and print the same
  messages of the cycle, and differ in the banner and in where the line about the next
  automatic backup stands. (The scheduler's world is the one it wakes up in, which it
  does when \<open>time.sleep\<close> accepts the interval.)
\<close>

theorem triggers_run_the_same_cycle:
  fixes w :: "('t::linorder) world"
  assumes "0 \<le> interval_minutes"
    and "interval_minutes * 60 \<le> max_sleep"
    and "elapse w0 = w"
    and "create_backup source_dir backup_dir game_name max_backups compress_level w = (r, w', ms)"
  shows "manual_backup_handler create_backup source_dir backup_dir game_name max_backups
           compress_level backup_interval w =
           (Inr (), w', ManualBackupTriggered # ms @ [NextAutomaticBackupIn backup_interval]) \<and>
         auto_backup_scheduler (Suc 0) max_sleep elapse create_backup source_dir backup_dir
           game_name max_backups interval_minutes compress_level w0 =
           (None, w', NextAutomaticBackupIn interval_minutes # AutomaticBackupOnSchedule # ms)"
proof -
  from create_backup_returns[of source_dir backup_dir game_name max_backups compress_level w] assms(4)
  obtain b where r: "r = Inr b" by auto
  from assms r show ?thesis
    by (simp add: manual_backup_handler_def time_sleep_def Let_def)
qed

theorem triggers_run_the_same_cycle_witness:
  "(0::int) \<le> 20 \<and> (20::int) * 60 \<le> 9223372000 \<and>
   create_backup [''S''] [''B''] ''TLD'' 50 6 fresh_world =
     (Inr True,
      fresh_world\<lparr>fs := fs fresh_world @
        [([''B'', ''TLD_backup_20240101_120000.zip''],
          File 5 (Archive True (Some (''TLD'', example_now))
                   [ZEntry [''save.dat''] (Bytes ''one'') ZIP_DEFLATED None]))]\<rparr>,
      [BackupCreated ''TLD_backup_20240101_120000.zip'' 1]) \<and>
   manual_backup_handler create_backup [''S''] [''B''] ''TLD'' 50 6 20 fresh_world =
     (Inr (),
      fresh_world\<lparr>fs := fs fresh_world @
        [([''B'', ''TLD_backup_20240101_120000.zip''],
          File 5 (Archive True (Some (''TLD'', example_now))
                   [ZEntry [''save.dat''] (Bytes ''one'') ZIP_DEFLATED None]))]\<rparr>,
      [ManualBackupTriggered, BackupCreated ''TLD_backup_20240101_120000.zip'' 1,
       NextAutomaticBackupIn 20]) \<and>
   auto_backup_scheduler (Suc 0) 9223372000 (\<lambda>w. w) create_backup [''S''] [''B''] ''TLD'' 50 20 6
       fresh_world =
     (None,
      fresh_world\<lparr>fs := fs fresh_world @
        [([''B'', ''TLD_backup_20240101_120000.zip''],
          File 5 (Archive True (Some (''TLD'', example_now))
                   [ZEntry [''save.dat''] (Bytes ''one'') ZIP_DEFLATED None]))]\<rparr>,
      [NextAutomaticBackupIn 20, AutomaticBackupOnSchedule,
       BackupCreated ''TLD_backup_20240101_120000.zip'' 1])"
proof -
  have h1: "(0::int) \<le> 20" and h2: "(20::int) * 60 \<le> 9223372000" by simp_all
  have h3: "create_backup [''S''] [''B''] ''TLD'' 50 6 fresh_world =
     (Inr True,
      fresh_world\<lparr>fs := fs fresh_world @
        [([''B'', ''TLD_backup_20240101_120000.zip''],
          File 5 (Archive True (Some (''TLD'', example_now))
                   [ZEntry [''save.dat''] (Bytes ''one'') ZIP_DEFLATED None]))]\<rparr>,
      [BackupCreated ''TLD_backup_20240101_120000.zip'' 1])"
    by (simp add: cycle_defs eval_defs fresh_world_def example_now_def)
  note th = triggers_run_the_same_cycle[where elapse = "\<lambda>w. w" and ?w0.0 = fresh_world
      and backup_interval = 20, OF h1 h2 _ h3]
  from th[OF refl] h1 h2 h3 show ?thesis by simp
qed

section \<open>Overlapping cycles\<close>

lemma try_archive_create_backup:
  "create_backup src dst g k l w =
     (case try_archive src dst g l w of
        (True, w1, ms) \<Rightarrow>
          (case cleanup_old_backups dst g k w1 of (w2, ms') \<Rightarrow> (Inr True, w2, ms @ ms'))
      | (False, w1, ms) \<Rightarrow> (Inr False, w1, ms))"
  by (auto simp: create_backup_def create_backup_body_def try_archive_def
      split: prod.splits sum.splits bool.splits)

text \<open>
  Claim C2, as the code has it. There is no coordinator, no flag and no rejection. A
  trigger of an origin that is not in a cycle runs the archive step on the shared world
  at once, whatever the other origin is doing, and leaves the other origin's state as
  it was. The steps of one origin, taken one after the other, are \<open>create_backup\<close>.
\<close>

theorem trigger_always_starts_a_cycle:
  fixes c :: "('t::linorder) config"
  assumes "\<not> in_cycle c d"
    and "c1 = thread_step source_dir backup_dir game_name max_backups compress_level d c"
  shows "shared c1 = fst (snd (try_archive source_dir backup_dir game_name compress_level (shared c))) \<and>
         in_cycle c1 d = fst (try_archive source_dir backup_dir game_name compress_level (shared c)) \<and>
         (\<forall>d'. d' \<noteq> d \<longrightarrow> in_cycle c1 d' = in_cycle c d') \<and>
         fst (snd (create_backup source_dir backup_dir game_name max_backups compress_level (shared c))) =
           (if in_cycle c1 d
            then shared (thread_step source_dir backup_dir game_name max_backups compress_level d c1)
            else shared c1)"
proof -
  obtain b w1 ms where t: "try_archive source_dir backup_dir game_name compress_level (shared c) = (b, w1, ms)"
    by (cases "try_archive source_dir backup_dir game_name compress_level (shared c)")
  show ?thesis
  proof (cases b)
    case True
    with assms t have c1: "c1 = c\<lparr>shared := w1, in_cycle := (in_cycle c)(d := True)\<rparr>"
      by (simp add: thread_step_def)
    then have "shared (thread_step source_dir backup_dir game_name max_backups compress_level d c1) =
        fst (cleanup_old_backups backup_dir game_name max_backups w1)"
      by (simp add: thread_step_def)
    with c1 t True show ?thesis
      by (simp add: try_archive_create_backup split: prod.splits)
  next
    case False
    with assms t have c1: "c1 = c\<lparr>shared := w1\<rparr>"
      by (simp add: thread_step_def)
    with assms(1) t False show ?thesis
      by (simp add: try_archive_create_backup)
  qed
qed

lemma try_archive_fresh:
  "try_archive [''S''] [''B''] ''TLD'' 6 fresh_world =
     (True,
      fresh_world\<lparr>fs := fs fresh_world @
        [([''B'', ''TLD_backup_20240101_120000.zip''],
          File 5 (Archive True (Some (''TLD'', example_now))
                   [ZEntry [''save.dat''] (Bytes ''one'') ZIP_DEFLATED None]))]\<rparr>,
      [BackupCreated ''TLD_backup_20240101_120000.zip'' 1])"
  by (simp add: try_archive_def cycle_defs fresh_world_def example_now_def)

lemma scheduled_running_config_eq:
  "scheduled_running_config =
     \<lparr>shared = fresh_world\<lparr>fs := fs fresh_world @
        [([''B'', ''TLD_backup_20240101_120000.zip''],
          File 5 (Archive True (Some (''TLD'', example_now))
                   [ZEntry [''save.dat''] (Bytes ''one'') ZIP_DEFLATED None]))]\<rparr>,
      in_cycle = (\<lambda>d. False)(Scheduled := True)\<rparr>"
  by (simp add: scheduled_running_config_def thread_step_def idle_config_def try_archive_fresh)

lemma try_archive_again:
  "try_archive [''S''] [''B''] ''TLD'' 6
     (fresh_world\<lparr>fs := fs fresh_world @
        [([''B'', ''TLD_backup_20240101_120000.zip''],
          File 5 (Archive True (Some (''TLD'', example_now))
                   [ZEntry [''save.dat''] (Bytes ''one'') ZIP_DEFLATED None]))]\<rparr>) =
     (True,
      fresh_world\<lparr>fs := fs fresh_world @
        [([''B'', ''TLD_backup_20240101_120000.zip''],
          File 5 (Archive True (Some (''TLD'', example_now))
                   [ZEntry [''save.dat''] (Bytes ''one'') ZIP_DEFLATED None]))]\<rparr>,
      [BackupCreated ''TLD_backup_20240101_120000.zip'' 1])"
  by (simp add: try_archive_def cycle_defs fresh_world_def example_now_def)

theorem trigger_always_starts_a_cycle_witness:
  "in_cycle scheduled_running_config Scheduled \<and>
   \<not> in_cycle scheduled_running_config Manual \<and>
   in_cycle (thread_step [''S''] [''B''] ''TLD'' 50 6 Manual scheduled_running_config) Manual = True \<and>
   in_cycle (thread_step [''S''] [''B''] ''TLD'' 50 6 Manual scheduled_running_config) Scheduled = True"
proof -
  have h: "\<not> in_cycle scheduled_running_config Manual"
    by (simp add: scheduled_running_config_eq)
  have s: "in_cycle scheduled_running_config Scheduled"
    by (simp add: scheduled_running_config_eq)
  note th = trigger_always_starts_a_cycle[OF h refl, of "[''S'']" "[''B'']" "''TLD''" 50 6]
  from th[THEN conjunct2, THEN conjunct1]
  have 1: "in_cycle (thread_step [''S''] [''B''] ''TLD'' 50 6 Manual scheduled_running_config) Manual = True"
    by (simp add: scheduled_running_config_eq try_archive_again)
  have "Scheduled \<noteq> Manual" by simp
  from th[THEN conjunct2, THEN conjunct2, THEN conjunct1, rule_format, OF this] s
  have 2: "in_cycle (thread_step [''S''] [''B''] ''TLD'' 50 6 Manual scheduled_running_config) Scheduled = True"
    by simp
  from h s 1 2 show ?thesis by simp
qed

text \<open>
  The claim as written fails: the scheduled cycle has written its archive and not yet
  run its cleanup when F5 is pressed; the manual trigger is not rejected, and both cycles
  are in progress.
\<close>

theorem cycles_overlap_counterexample:
  "in_cycle (run_schedule [''S''] [''B''] ''TLD'' 50 6 [Scheduled] idle_config) Scheduled \<and>
   \<not> in_cycle (run_schedule [''S''] [''B''] ''TLD'' 50 6 [Scheduled] idle_config) Manual \<and>
   in_cycle (run_schedule [''S''] [''B''] ''TLD'' 50 6 [Scheduled, Manual] idle_config) Scheduled \<and>
   in_cycle (run_schedule [''S''] [''B''] ''TLD'' 50 6 [Scheduled, Manual] idle_config) Manual"
proof -
  have 1: "thread_step [''S''] [''B''] ''TLD'' 50 6 Scheduled idle_config = scheduled_running_config"
    by (simp add: scheduled_running_config_def)
  have 2: "in_cycle (thread_step [''S''] [''B''] ''TLD'' 50 6 Manual scheduled_running_config) Manual"
    and 3: "in_cycle (thread_step [''S''] [''B''] ''TLD'' 50 6 Manual scheduled_running_config) Scheduled"
    by (simp_all add: thread_step_def scheduled_running_config_eq try_archive_again)
  show ?thesis by (simp add: 1 2 3) (simp add: scheduled_running_config_eq)
qed


end
